theory Spec2Isabelle
  imports Main "HOL-Library.Word"
begin

section \<open>Strings\<close>

text \<open>
  A Python \<^verbatim>\<open>str\<close> is modelled as a \<^typ>\<open>string\<close>, each \<^typ>\<open>char\<close> read as a code
  point below 256. \<open>isspace\<close> is Python's whitespace test on that range (tab to carriage
  return, the four separators 28 to 31, space, NEL and the no-break space); \<open>strip\<close> is
  \<^verbatim>\<open>str.strip()\<close> and \<open>split_comma\<close> is \<^verbatim>\<open>str.split(",")\<close>, which always
  returns at least one piece (so the empty case of the inner \<open>case\<close> is never taken).
\<close>

definition isspace :: "char \<Rightarrow> bool" where
  "isspace c = (of_char c \<in> set [9, 10, 11, 12, 13, 28, 29, 30, 31, 32, 133, 160 :: nat])"

definition strip :: "string \<Rightarrow> string" where
  "strip s = rev (dropWhile isspace (rev (dropWhile isspace s)))"

fun split_comma :: "string \<Rightarrow> string list" where
  "split_comma [] = [[]]"
| "split_comma (c # cs) =
     (if c = CHR '','' then [] # split_comma cs
      else (case split_comma cs of
              [] \<Rightarrow> [[c]]
            | piece # pieces \<Rightarrow> (c # piece) # pieces))"

section \<open>The tag normalizer: \<^verbatim>\<open>parse_tags\<close>\<close>

text \<open>
  \<open>collect_tags\<close> is the first half of \<^verbatim>\<open>parse_tags\<close>: the list \<^verbatim>\<open>tags\<close> as it
  stands before the deduplication loop. The split pieces are kept when their stripped form
  is non-empty; the category is appended, stripped, whenever the category itself is truthy
  (a non-empty string), which the source tests before stripping. \<open>unique_loop\<close> is the
  loop over \<^verbatim>\<open>tags\<close> with its two variables \<^verbatim>\<open>seen\<close> and \<^verbatim>\<open>unique_tags\<close>.
\<close>

fun unique_loop :: "string list \<Rightarrow> string set \<Rightarrow> string list \<Rightarrow> string list" where
  "unique_loop [] seen unique_tags = unique_tags"
| "unique_loop (t # ts) seen unique_tags =
     (if t \<notin> seen then unique_loop ts (insert t seen) (unique_tags @ [t])
      else unique_loop ts seen unique_tags)"

definition collect_tags :: "string \<Rightarrow> string option \<Rightarrow> string list" where
  "collect_tags raw_tags category =
     (let tags = (if raw_tags \<noteq> []
                  then map strip (filter (\<lambda>t. strip t \<noteq> []) (split_comma raw_tags))
                  else [])
      in case category of
           None \<Rightarrow> tags
         | Some c \<Rightarrow> if c \<noteq> [] then tags @ [strip c] else tags)"

definition parse_tags :: "string \<Rightarrow> string option \<Rightarrow> string list" where
  "parse_tags raw_tags category = unique_loop (collect_tags raw_tags category) {} []"

text \<open>
  The specification's wording of deduplication, "duplicates removed while preserving
  first-occurrence order": keep the head, drop every later copy of it, go on with the rest.
  It is compared with \<open>unique_loop\<close> below.
\<close>

fun first_occurrences :: "'a list \<Rightarrow> 'a list" where
  "first_occurrences [] = []"
| "first_occurrences (x # xs) = x # first_occurrences (filter (\<lambda>y. y \<noteq> x) xs)"

section \<open>Python values and the persistence collaborator\<close>

text \<open>
  The response of the storage client is duck-typed: the source reads it with
  \<^verbatim>\<open>getattr(res, "error", None)\<close> and tests the result for truthiness. A response is
  modelled by its \<open>error\<close> attribute alone, \<open>None\<close> when the object has no such attribute,
  and \<open>pyval\<close> carries Python values of both truth values: \<^verbatim>\<open>None\<close>, booleans,
  integers, strings, dictionaries, and any other object (truthy by default).
\<close>

datatype pyval =
    PyNone
  | PyBool bool
  | PyInt int
  | PyStr string
  | PyDict "(string \<times> string) list"
  | PyObject string

fun truthy :: "pyval \<Rightarrow> bool" where
  "truthy PyNone = False"
| "truthy (PyBool b) = b"
| "truthy (PyInt n) = (n \<noteq> 0)"
| "truthy (PyStr s) = (s \<noteq> [])"
| "truthy (PyDict kvs) = (kvs \<noteq> [])"
| "truthy (PyObject cls) = True"

record response =
  error :: "pyval option"

definition getattr_error :: "response \<Rightarrow> pyval" where
  "getattr_error res = (case error res of None \<Rightarrow> PyNone | Some v \<Rightarrow> v)"

text \<open>
  A row is the dictionary built in \<^verbatim>\<open>main\<close>, one field per key (\<open>id'\<close> and \<open>file'\<close> for
  the keys \<^verbatim>\<open>id\<close> and \<^verbatim>\<open>file\<close>). The collaborator is deterministic in what it has been
  sent: a client maps the insert requests received so far and the current request to the
  outcome of \<^verbatim>\<open>supabase.table(...).insert(chunk).execute()\<close>, which either returns a
  response (\<open>Inr\<close>) or raises an exception (\<open>Inl\<close>). The \<open>world\<close> holds what a run can
  observe: the lines printed, the number of identifiers drawn and the insert requests
  submitted. A function that may be left by an exception returns \<open>Inl\<close> of the exception
  and the world as it stood when the exception was raised, and \<open>world_of\<close> reads the
  world out of either result.
\<close>

record row =
  id' :: string
  icon_name :: string
  tags :: "string list"
  keyword :: string
  file' :: string
  embedding :: pyval

type_synonym request = "string \<times> row list"

datatype exn = Exception string

type_synonym client = "request list \<Rightarrow> request \<Rightarrow> exn + response"

datatype diag =
    NoRows
  | Inserting nat nat
  | SupabaseError pyval
  | Inserted
  | FileNotFound string string
  | Prepared nat
  | Done

record world =
  out :: "diag list"
  uuid_calls :: nat
  requests :: "request list"

type_synonym result = "(exn \<times> world) + world"

definition world_of :: "result \<Rightarrow> world" where
  "world_of r = (case r of Inl (e, w) \<Rightarrow> w | Inr w \<Rightarrow> w)"

definition ICON_STYLE_SUFFIX :: string where
  "ICON_STYLE_SUFFIX = ''stroke-rounded''"

definition OUTPUT_DIR :: string where
  "OUTPUT_DIR = ''icons''"

definition SUPABASE_TABLE :: string where
  "SUPABASE_TABLE = ''icon_vectors''"

section \<open>The batch publisher: \<^verbatim>\<open>insert_icons_to_supabase\<close>\<close>

text \<open>
  \<open>insert_chunk\<close> is the body of the \<^verbatim>\<open>for i in range(0, len(rows), chunk_size)\<close> loop,
  \<open>insert_loop\<close> the loop itself with its index \<open>i\<close>. \<open>Inserting n k\<close> is the line
  announcing \<open>n\<close> rows in chunk number \<open>k\<close>. The source has no handler around the insert,
  so an exception raised by the client leaves the loop and the function at once. In the
  error branch the attribute exists, so \<^verbatim>\<open>res.error\<close> is the value \<open>getattr_error\<close>
  returned.
\<close>

definition chunk_size :: nat where
  "chunk_size = 100"

definition insert_chunk :: "client \<Rightarrow> row list \<Rightarrow> nat \<Rightarrow> world \<Rightarrow> result" where
  "insert_chunk supabase rows i w =
     (let chunk = take chunk_size (drop i rows);
          w1 = w\<lparr>out := out w @ [Inserting (length chunk) (i div chunk_size + 1)]\<rparr>;
          w2 = w1\<lparr>requests := requests w1 @ [(SUPABASE_TABLE, chunk)]\<rparr>
      in case supabase (requests w1) (SUPABASE_TABLE, chunk) of
           Inl e \<Rightarrow> Inl (e, w2)
         | Inr res \<Rightarrow>
             if truthy (getattr_error res)
             then Inr (w2\<lparr>out := out w2 @ [SupabaseError (getattr_error res)]\<rparr>)
             else Inr (w2\<lparr>out := out w2 @ [Inserted]\<rparr>))"

function insert_loop :: "client \<Rightarrow> row list \<Rightarrow> nat \<Rightarrow> world \<Rightarrow> result" where
  "insert_loop supabase rows i w =
     (if i < length rows
      then (case insert_chunk supabase rows i w of
              Inl raised \<Rightarrow> Inl raised
            | Inr w' \<Rightarrow> insert_loop supabase rows (i + chunk_size) w')
      else Inr w)"
  by pat_completeness auto
termination
  by (relation "measure (\<lambda>(supabase, rows, i, w). length rows - i)")
     (auto simp: chunk_size_def)

declare insert_loop.simps [simp del]

definition insert_icons_to_supabase :: "client \<Rightarrow> row list \<Rightarrow> world \<Rightarrow> result" where
  "insert_icons_to_supabase supabase rows w =
     (if rows = [] then Inr (w\<lparr>out := out w @ [NoRows]\<rparr>)
      else insert_loop supabase rows 0 w)"

text \<open>
  Vocabulary for the statements: the \<open>k\<close>-th contiguous slice of the rows, the number of
  slices, and the outcome the client gives to the \<open>k\<close>-th slice after receiving the
  slices before it.
\<close>

definition chunk_at :: "row list \<Rightarrow> nat \<Rightarrow> row list" where
  "chunk_at rows k = take chunk_size (drop (k * chunk_size) rows)"

definition chunk_count :: "row list \<Rightarrow> nat" where
  "chunk_count rows = (length rows + (chunk_size - 1)) div chunk_size"

definition outcome_at :: "client \<Rightarrow> world \<Rightarrow> row list \<Rightarrow> nat \<Rightarrow> exn + response" where
  "outcome_at supabase w rows k =
     supabase (requests w @ map (\<lambda>j. (SUPABASE_TABLE, chunk_at rows j)) [0..<k])
              (SUPABASE_TABLE, chunk_at rows k)"

text \<open>
  The two lines a run prints for chunk \<open>k\<close> when its insert returns the response
  \<open>res k\<close>, the world after the first \<open>k\<close> chunks when their inserts have returned, and
  the chunks submitted between two worlds: the payloads of the requests the later world has
  beyond the earlier one's.
\<close>

definition chunk_report :: "(nat \<Rightarrow> response) \<Rightarrow> row list \<Rightarrow> nat \<Rightarrow> diag list" where
  "chunk_report res rows k =
     [Inserting (length (chunk_at rows k)) (k + 1),
      if truthy (getattr_error (res k)) then SupabaseError (getattr_error (res k)) else Inserted]"

definition progress :: "world \<Rightarrow> (nat \<Rightarrow> response) \<Rightarrow> row list \<Rightarrow> nat \<Rightarrow> world" where
  "progress w res rows k =
     w\<lparr>out := out w @ concat (map (chunk_report res rows) [0..<k]),
       requests := requests w @ map (\<lambda>j. (SUPABASE_TABLE, chunk_at rows j)) [0..<k]\<rparr>"

definition submitted :: "world \<Rightarrow> world \<Rightarrow> row list list" where
  "submitted w w' = map snd (drop (length (requests w)) (requests w'))"

section \<open>Identifiers\<close>

text \<open>
  \<^verbatim>\<open>uuid.uuid4()\<close> is a parameter of the model: \<open>uuid4 k\<close> is the 128-bit value of the
  identifier returned by the \<open>k\<close>-th call of the run. \<open>str_uuid\<close> is \<^verbatim>\<open>str\<close> on a UUID:
  32 lower-case hexadecimal digits, most significant first, in groups of 8, 4, 4, 4 and 12
  separated by dashes.
\<close>

definition hex_digit :: "nat \<Rightarrow> char" where
  "hex_digit n = ''0123456789abcdef'' ! n"

definition nibble :: "128 word \<Rightarrow> nat \<Rightarrow> nat" where
  "nibble u i = unat (and (drop_bit (4 * i) u) 15)"

definition hex32 :: "128 word \<Rightarrow> string" where
  "hex32 u = map (\<lambda>i. hex_digit (nibble u i)) (rev [0..<32])"

definition str_uuid :: "128 word \<Rightarrow> string" where
  "str_uuid u =
     (let hex = hex32 u
      in take 8 hex @ ''-'' @ take 4 (drop 8 hex) @ ''-'' @ take 4 (drop 12 hex) @ ''-'' @
         take 4 (drop 16 hex) @ ''-'' @ drop 20 hex)"

section \<open>The reconciliation loop of \<^verbatim>\<open>main\<close>\<close>

text \<open>
  \<open>path_join\<close> is \<^verbatim>\<open>os.path.join\<close> on two components (POSIX), and \<open>path_exists\<close>, a
  parameter, is \<^verbatim>\<open>os.path.exists\<close>. A catalog entry is read through \<^verbatim>\<open>icon.get\<close>: a
  field is \<open>None\<close> when the key is absent or null. The field \<open>raw_tags\<close> is the key
  \<^verbatim>\<open>tags\<close>, named after the variable it is read into; an absent key reads as the
  empty string, and a null one is falsy in \<^verbatim>\<open>parse_tags\<close> just as the empty string is.
  \<open>main_loop\<close> is the loop over the fetched icons, with \<^verbatim>\<open>rows_to_insert\<close> as its
  accumulator; \<open>main\<close> is the function from the fetched list on (the start-up checks and
  the HTTP fetch come before it). An exception out of the publisher leaves \<open>main\<close> before
  its last line is printed.
\<close>

definition path_join :: "string \<Rightarrow> string \<Rightarrow> string" where
  "path_join a b =
     (if b \<noteq> [] \<and> hd b = CHR ''/'' then b
      else if a = [] \<or> last a = CHR ''/'' then a @ b
      else a @ ''/'' @ b)"

record icon =
  name :: "string option"
  raw_tags :: "string option"
  category :: "string option"

fun main_loop ::
  "(string \<Rightarrow> bool) \<Rightarrow> (nat \<Rightarrow> 128 word) \<Rightarrow> icon list \<Rightarrow> row list \<Rightarrow> world \<Rightarrow> row list \<times> world"
where
  "main_loop path_exists uuid4 [] rows_to_insert w = (rows_to_insert, w)"
| "main_loop path_exists uuid4 (icon # icons) rows_to_insert w =
     (case name icon of
        None \<Rightarrow> main_loop path_exists uuid4 icons rows_to_insert w
      | Some nm \<Rightarrow>
          if nm = [] then main_loop path_exists uuid4 icons rows_to_insert w
          else
            let file_name = nm @ ''-'' @ ICON_STYLE_SUFFIX @ ''.svg'';
                local_path = path_join OUTPUT_DIR file_name
            in if \<not> path_exists local_path
               then main_loop path_exists uuid4 icons rows_to_insert
                      (w\<lparr>out := out w @ [FileNotFound nm local_path]\<rparr>)
               else
                 let tags_list = parse_tags (case raw_tags icon of None \<Rightarrow> [] | Some t \<Rightarrow> t)
                                   (category icon);
                     r = \<lparr>id' = str_uuid (uuid4 (uuid_calls w)),
                          icon_name = nm,
                          tags = tags_list,
                          keyword = [],
                          file' = file_name,
                          embedding = PyNone\<rparr>
                 in main_loop path_exists uuid4 icons (rows_to_insert @ [r])
                      (w\<lparr>uuid_calls := Suc (uuid_calls w)\<rparr>))"

definition main ::
  "(string \<Rightarrow> bool) \<Rightarrow> (nat \<Rightarrow> 128 word) \<Rightarrow> client \<Rightarrow> icon list \<Rightarrow> world \<Rightarrow> result"
where
  "main path_exists uuid4 supabase icons w =
     (let (rows_to_insert, w1) = main_loop path_exists uuid4 icons [] w;
          w2 = w1\<lparr>out := out w1 @ [Prepared (length rows_to_insert)]\<rparr>
      in case insert_icons_to_supabase supabase rows_to_insert w2 of
           Inl raised \<Rightarrow> Inl raised
         | Inr w3 \<Rightarrow> Inr (w3\<lparr>out := out w3 @ [Done]\<rparr>))"

section \<open>Example inputs\<close>

text \<open>
  Concrete inputs at which the theorems below are instantiated: a list of \<open>n\<close> rows, the
  world before a run, a client whose second response only carries an error, a client
  whose first three responses have no error attribute, a falsy one and a truthy one, a
  client that raises on its second request only, and the two-entry catalog of the specification's end-to-end scenario with the one file that
  exists for it.
\<close>

definition sample_rows :: "nat \<Rightarrow> row list" where
  "sample_rows n =
     map (\<lambda>k. \<lparr>id' = str_uuid (word_of_nat k), icon_name = ''icon'', tags = [],
               keyword = [], file' = ''icon-stroke-rounded.svg'', embedding = PyNone\<rparr>) [0..<n]"

definition empty_world :: world where
  "empty_world = \<lparr>out = [], uuid_calls = 0, requests = []\<rparr>"

definition fail_second_response :: "nat \<Rightarrow> response" where
  "fail_second_response k =
     (if k = 1 then \<lparr>error = Some (PyStr ''timeout'')\<rparr> else \<lparr>error = None\<rparr>)"

definition fail_second :: client where
  "fail_second received req = Inr (fail_second_response (length received))"

definition three_kinds_response :: "nat \<Rightarrow> response" where
  "three_kinds_response k =
     (if k = 0 then \<lparr>error = None\<rparr>
      else if k = 1 then \<lparr>error = Some PyNone\<rparr>
      else \<lparr>error = Some (PyObject ''APIError'')\<rparr>)"

definition three_kinds :: client where
  "three_kinds received req = Inr (three_kinds_response (length received))"

definition raise_second :: client where
  "raise_second received req =
     (if length received = 1 then Inl (Exception ''APIError'') else Inr \<lparr>error = None\<rparr>)"

definition catalog_example :: "icon list" where
  "catalog_example =
     [\<lparr>name = Some ''arrow-up'', raw_tags = Some ''direction, arrow'',
       category = Some ''navigation''\<rparr>,
      \<lparr>name = Some ''missing-icon'', raw_tags = Some [], category = Some []\<rparr>]"

definition files_example :: "string \<Rightarrow> bool" where
  "files_example p = (p = ''icons/arrow-up-stroke-rounded.svg'')"

section \<open>Properties of the tag normalizer\<close>

lemma unique_loop_first_occurrences:
  "unique_loop ts seen acc = acc @ first_occurrences (filter (\<lambda>t. t \<notin> seen) ts)"
proof (induction ts arbitrary: seen acc)
  case Nil
  then show ?case by simp
next
  case (Cons t ts)
  have "filter (\<lambda>y. y \<noteq> t) (filter (\<lambda>t. t \<notin> seen) ts) = filter (\<lambda>x. x \<notin> insert t seen) ts"
    by (simp add: conj_commute)
  with Cons show ?case by simp
qed

lemma set_first_occurrences: "set (first_occurrences xs) = set xs"
  by (induction xs rule: first_occurrences.induct) auto

lemma distinct_first_occurrences: "distinct (first_occurrences xs)"
  by (induction xs rule: first_occurrences.induct) (auto simp: set_first_occurrences)

lemma parse_tags_distinct: "distinct (parse_tags raw cat)"
  by (simp add: parse_tags_def unique_loop_first_occurrences distinct_first_occurrences)

text \<open>
  Claim C1. For every raw tag string and every optional category, the list returned by
  \<^verbatim>\<open>parse_tags\<close> has no duplicate and no empty string. The list never has a duplicate
  (\<open>parse_tags_distinct\<close>), but the category is tested for emptiness before it is
  stripped: with no tags and a category of one space, the result is the list holding the
  empty string.
\<close>

theorem parse_tags_blank_category:
  "parse_tags [] (Some '' '') = [[]]
   \<and> [] \<in> set (parse_tags [] (Some '' ''))
   \<and> parse_tags ''a'' (Some ''  '') = [''a'', []]"
  by (simp add: parse_tags_def collect_tags_def strip_def isspace_def)

text \<open>
  Claim C7. Deduplication is by exact, case-sensitive string equality and keeps the order
  of first occurrence over the combined input, the tags first and the category after them:
  \<^verbatim>\<open>parse_tags\<close> is \<open>first_occurrences\<close> of the collected list, and the collected list
  is the list of the tags alone followed by the category, if there is one. In particular
  \<^verbatim>\<open>parse_tags("b, a, b", "a")\<close> is \<^verbatim>\<open>["b", "a"]\<close>, and \<^verbatim>\<open>A\<close> and \<^verbatim>\<open>a\<close> are
  different tags.
\<close>

theorem parse_tags_first_occurrences:
  "parse_tags raw cat = first_occurrences (collect_tags raw cat)
   \<and> collect_tags raw cat =
       collect_tags raw None @
         (case cat of None \<Rightarrow> [] | Some c \<Rightarrow> if c = [] then [] else [strip c])
   \<and> parse_tags ''b, a, b'' (Some ''a'') = [''b'', ''a'']
   \<and> parse_tags ''A, a, A'' (Some ''a'') = [''A'', ''a'']"
proof -
  have "parse_tags raw cat = first_occurrences (collect_tags raw cat)"
    by (simp add: parse_tags_def unique_loop_first_occurrences)
  moreover have "collect_tags raw cat =
       collect_tags raw None @
         (case cat of None \<Rightarrow> [] | Some c \<Rightarrow> if c = [] then [] else [strip c])"
    by (simp add: collect_tags_def split: option.split)
  moreover have "parse_tags ''b, a, b'' (Some ''a'') = [''b'', ''a'']"
    by (simp add: parse_tags_def collect_tags_def strip_def isspace_def)
  moreover have "parse_tags ''A, a, A'' (Some ''a'') = [''A'', ''a'']"
    by (simp add: parse_tags_def collect_tags_def strip_def isspace_def)
  ultimately show ?thesis by simp
qed

section \<open>Properties of the batch publisher\<close>

lemma chunk_count_less: "k < chunk_count rows \<longleftrightarrow> k * chunk_size < length rows"
  by (auto simp: chunk_count_def chunk_size_def)

lemma insert_loop_done:
  assumes "\<not> k < chunk_count rows"
  shows "insert_loop c rows (k * chunk_size) w = Inr w"
proof -
  from assms have a: "\<not> k * chunk_size < length rows"
    by (simp add: chunk_count_less)
  show ?thesis
    by (subst insert_loop.simps) (simp only: a if_False)
qed

lemma insert_loop_step:
  assumes "k < chunk_count rows"
  shows "insert_loop c rows (k * chunk_size) w =
         (case insert_chunk c rows (k * chunk_size) w of
            Inl raised \<Rightarrow> Inl raised
          | Inr w' \<Rightarrow> insert_loop c rows (Suc k * chunk_size) w')"
proof -
  from assms have a: "k * chunk_size < length rows"
    by (simp add: chunk_count_less)
  have b: "k * chunk_size + chunk_size = Suc k * chunk_size" by simp
  show ?thesis
    by (subst insert_loop.simps) (simp only: a if_True b)
qed

lemma insert_chunk_step:
  "insert_chunk c rows (n * chunk_size) w =
     (case c (requests w) (SUPABASE_TABLE, chunk_at rows n) of
        Inl e \<Rightarrow>
          Inl (e, w\<lparr>out := out w @ [Inserting (length (chunk_at rows n)) (n + 1)],
                    requests := requests w @ [(SUPABASE_TABLE, chunk_at rows n)]\<rparr>)
      | Inr r \<Rightarrow>
          Inr (w\<lparr>out := out w @ [Inserting (length (chunk_at rows n)) (n + 1),
                       if truthy (getattr_error r) then SupabaseError (getattr_error r)
                       else Inserted],
                 requests := requests w @ [(SUPABASE_TABLE, chunk_at rows n)]\<rparr>))"
proof -
  have d: "n * chunk_size div chunk_size = n" by (simp add: chunk_size_def)
  show ?thesis
    by (simp add: insert_chunk_def Let_def chunk_at_def d split: sum.split)
qed

lemma progress_0: "progress w res rows 0 = w"
  by (simp add: progress_def)

lemma insert_chunk_returns:
  assumes "outcome_at c w rows k = Inr (res k)"
  shows "insert_chunk c rows (k * chunk_size) (progress w res rows k) =
           Inr (progress w res rows (Suc k))"
proof -
  have "c (requests (progress w res rows k)) (SUPABASE_TABLE, chunk_at rows k) = Inr (res k)"
    using assms by (simp add: outcome_at_def progress_def)
  then show ?thesis
    by (simp add: insert_chunk_step) (simp add: progress_def chunk_report_def)
qed

lemma insert_chunk_raises:
  assumes "outcome_at c w rows k = Inl e"
  shows "insert_chunk c rows (k * chunk_size) (progress w res rows k) =
           Inl (e, (progress w res rows k)
                     \<lparr>out := out (progress w res rows k)
                              @ [Inserting (length (chunk_at rows k)) (k + 1)],
                      requests := requests (progress w res rows k)
                              @ [(SUPABASE_TABLE, chunk_at rows k)]\<rparr>)"
proof -
  have "c (requests (progress w res rows k)) (SUPABASE_TABLE, chunk_at rows k) = Inl e"
    using assms by (simp add: outcome_at_def progress_def)
  then show ?thesis
    by (simp add: insert_chunk_step)
qed

lemma insert_loop_prefix:
  assumes "m \<le> chunk_count rows"
    and "\<forall>j<m. outcome_at c w rows j = Inr (res j)"
  shows "insert_loop c rows 0 w = insert_loop c rows (m * chunk_size) (progress w res rows m)"
  using assms
proof (induction m)
  case 0
  then show ?case by (simp add: progress_0)
next
  case (Suc m)
  then have m: "m < chunk_count rows" and r: "outcome_at c w rows m = Inr (res m)"
    by simp_all
  from Suc have "insert_loop c rows 0 w = insert_loop c rows (m * chunk_size) (progress w res rows m)"
    by simp
  also have "\<dots> = insert_loop c rows (Suc m * chunk_size) (progress w res rows (Suc m))"
    by (simp only: insert_loop_step[OF m] insert_chunk_returns[where res = res, OF r] sum.case)
  finally show ?case .
qed

lemma publish_returns:
  assumes "rows \<noteq> []"
    and "\<forall>j<chunk_count rows. outcome_at c w rows j = Inr (res j)"
  shows "insert_icons_to_supabase c rows w = Inr (progress w res rows (chunk_count rows))"
proof -
  have "insert_loop c rows 0 w =
          insert_loop c rows (chunk_count rows * chunk_size) (progress w res rows (chunk_count rows))"
    by (rule insert_loop_prefix[OF le_refl assms(2)])
  also have "\<dots> = Inr (progress w res rows (chunk_count rows))"
    by (rule insert_loop_done) simp
  finally show ?thesis using assms(1) by (simp add: insert_icons_to_supabase_def)
qed

lemma publish_raises:
  assumes "m < chunk_count rows"
    and "\<forall>j<m. outcome_at c w rows j = Inr (res j)"
    and "outcome_at c w rows m = Inl e"
  shows "insert_icons_to_supabase c rows w =
           Inl (e, (progress w res rows m)
                     \<lparr>out := out (progress w res rows m)
                              @ [Inserting (length (chunk_at rows m)) (m + 1)],
                      requests := requests (progress w res rows m)
                              @ [(SUPABASE_TABLE, chunk_at rows m)]\<rparr>)"
proof -
  from assms(1) have ne: "rows \<noteq> []" by (auto simp: chunk_count_def chunk_size_def)
  from assms(1) have le: "m \<le> chunk_count rows" by simp
  have "insert_loop c rows 0 w = insert_loop c rows (m * chunk_size) (progress w res rows m)"
    by (rule insert_loop_prefix[OF le assms(2)])
  also have "\<dots> = Inl (e, (progress w res rows m)
                     \<lparr>out := out (progress w res rows m)
                              @ [Inserting (length (chunk_at rows m)) (m + 1)],
                      requests := requests (progress w res rows m)
                              @ [(SUPABASE_TABLE, chunk_at rows m)]\<rparr>)"
    by (simp only: insert_loop_step[OF assms(1)] insert_chunk_raises[OF assms(3)] sum.case)
  finally show ?thesis using ne by (simp add: insert_icons_to_supabase_def)
qed

lemma submitted_progress:
  "submitted w (progress w res rows n) = map (chunk_at rows) [0..<n]"
  by (simp add: progress_def submitted_def comp_def)






lemma length_reports: "length (concat (map (chunk_report res rows) [0..<n])) = 2 * n"
  by (induction n) (simp_all add: chunk_report_def)

lemma nth_reports:
  assumes "k < n"
  shows "concat (map (chunk_report res rows) [0..<n]) ! (2 * k + 1) =
           (if truthy (getattr_error (res k)) then SupabaseError (getattr_error (res k))
            else Inserted)"
  using assms
proof (induction n)
  case 0
  then show ?case by simp
next
  case (Suc n)
  show ?case
  proof (cases "k < n")
    case True
    with Suc.IH show ?thesis by (simp add: nth_append length_reports)
  next
    case False
    with Suc.prems have "k = n" by simp
    then have a: "concat (map (chunk_report res rows) [0..<Suc n]) ! (2 * k + 1) =
        chunk_report res rows k ! 1"
      by (simp add: nth_append length_reports)
    have b: "chunk_report res rows k ! 1 =
        (if truthy (getattr_error (res k)) then SupabaseError (getattr_error (res k))
         else Inserted)"
      by (simp add: chunk_report_def)
    show ?thesis by (simp only: a b)
  qed
qed

lemma out_progress_nth:
  assumes "k < n"
  shows "(out (progress w res rows n) @ extra) ! (length (out w) + 2 * k + 1) =
           (if truthy (getattr_error (res k)) then SupabaseError (getattr_error (res k))
            else Inserted)"
proof -
  from assms have "2 * k + 1 < 2 * n" by simp
  then have "(out (progress w res rows n) @ extra) ! (length (out w) + 2 * k + 1) =
      concat (map (chunk_report res rows) [0..<n]) ! (2 * k + 1)"
    by (simp add: progress_def nth_append length_reports add.assoc)
  then show ?thesis by (simp only: nth_reports[OF assms])
qed

text \<open>
  Claim C8. Given an empty sequence of records, the publisher prints that there is nothing
  to insert and returns: the world is unchanged but for that one line, so no insert request
  has been made.
\<close>

theorem publish_empty:
  "insert_icons_to_supabase supabase [] w = Inr (w\<lparr>out := out w @ [NoRows]\<rparr>)
   \<and> requests (world_of (insert_icons_to_supabase supabase [] w)) = requests w"
  by (simp add: insert_icons_to_supabase_def world_of_def)



lemma returned_error_reported:
  assumes "k < chunk_count rows"
    and "\<forall>j<chunk_count rows. outcome_at c w rows j = Inr (res j)"
    and "truthy (getattr_error (res k))"
  shows "insert_icons_to_supabase c rows w = Inr (progress w res rows (chunk_count rows))"
    and "out (progress w res rows (chunk_count rows)) ! (length (out w) + 2 * k + 1)
           = SupabaseError (getattr_error (res k))"
    and "submitted w (progress w res rows (chunk_count rows)) =
           map (chunk_at rows) [0..<chunk_count rows]"
proof -
  from assms(1) have ne: "rows \<noteq> []" by (auto simp: chunk_count_def chunk_size_def)
  show "insert_icons_to_supabase c rows w = Inr (progress w res rows (chunk_count rows))"
    by (rule publish_returns[OF ne assms(2)])
  show "out (progress w res rows (chunk_count rows)) ! (length (out w) + 2 * k + 1)
           = SupabaseError (getattr_error (res k))"
    using out_progress_nth[OF assms(1), of w res rows "[]"] assms(3) by simp
  show "submitted w (progress w res rows (chunk_count rows)) =
           map (chunk_at rows) [0..<chunk_count rows]"
    by (rule submitted_progress)
qed

text \<open>
  Claim C3. An error reported for one chunk is recorded as a diagnostic and every later
  chunk is still submitted. This holds when the error comes back on the response
  (\<open>returned_error_reported\<close>). It fails when the client reports the failed insert by
  raising: with 250 rows, three chunks are due; the client raises on the second; the
  publisher is left with the exception, having printed no error diagnostic, and the third
  chunk, which is not empty, is never submitted.
\<close>

theorem raising_insert_aborts:
  "chunk_count (sample_rows 250) = 3
   \<and> chunk_at (sample_rows 250) 2 \<noteq> []
   \<and> insert_icons_to_supabase raise_second (sample_rows 250) empty_world =
       Inl (Exception ''APIError'',
            \<lparr>out = [Inserting 100 1, Inserted, Inserting 100 2],
             uuid_calls = 0,
             requests = [(SUPABASE_TABLE, chunk_at (sample_rows 250) 0),
                         (SUPABASE_TABLE, chunk_at (sample_rows 250) 1)]\<rparr>)
   \<and> (SUPABASE_TABLE, chunk_at (sample_rows 250) 2)
       \<notin> set (requests (world_of
                 (insert_icons_to_supabase raise_second (sample_rows 250) empty_world)))"
proof -
  let ?rows = "sample_rows 250"
  let ?res = "\<lambda>k::nat. \<lparr>error = None\<rparr>"
  have n: "chunk_count ?rows = 3"
    by (simp add: chunk_count_def chunk_size_def sample_rows_def)
  have l: "length (chunk_at ?rows 0) = 100" "length (chunk_at ?rows (Suc 0)) = 100"
    "length (chunk_at ?rows 2) = 50"
    by (simp_all add: chunk_at_def chunk_size_def sample_rows_def)
  from l(3) have c2: "chunk_at ?rows 2 \<noteq> []" by auto
  have m: "Suc 0 < chunk_count ?rows" by (simp add: n)
  have r0: "\<forall>j<Suc 0. outcome_at raise_second empty_world ?rows j = Inr (?res j)"
    by (simp add: outcome_at_def raise_second_def empty_world_def)
  have r1: "outcome_at raise_second empty_world ?rows (Suc 0) = Inl (Exception ''APIError'')"
    by (simp add: outcome_at_def raise_second_def empty_world_def)
  have run: "insert_icons_to_supabase raise_second ?rows empty_world =
       Inl (Exception ''APIError'',
            \<lparr>out = [Inserting 100 1, Inserted, Inserting 100 2],
             uuid_calls = 0,
             requests = [(SUPABASE_TABLE, chunk_at ?rows 0),
                         (SUPABASE_TABLE, chunk_at ?rows 1)]\<rparr>)"
    by (subst publish_raises[OF m r0 r1])
       (simp add: progress_def chunk_report_def l getattr_error_def empty_world_def)
  have ne: "chunk_at ?rows 2 \<noteq> chunk_at ?rows 0" "chunk_at ?rows 2 \<noteq> chunk_at ?rows 1"
  proof -
    show "chunk_at ?rows 2 \<noteq> chunk_at ?rows 0"
    proof
      assume "chunk_at ?rows 2 = chunk_at ?rows 0"
      then have "length (chunk_at ?rows 2) = length (chunk_at ?rows 0)" by simp
      with l show False by simp
    qed
    show "chunk_at ?rows 2 \<noteq> chunk_at ?rows 1"
    proof
      assume "chunk_at ?rows 2 = chunk_at ?rows 1"
      then have "length (chunk_at ?rows 2) = length (chunk_at ?rows (Suc 0))" by simp
      with l show False by simp
    qed
  qed
  have "(SUPABASE_TABLE, chunk_at ?rows 2)
       \<notin> set (requests (world_of (insert_icons_to_supabase raise_second ?rows empty_world)))"
    using ne by (simp add: run world_of_def)
  with n c2 run show ?thesis by simp
qed

text \<open>
  Claim C10. For every chunk whose insert returns (those before it having returned too),
  the line printed after the insert is decided by the response's error attribute alone: a
  response with no such attribute, or with a falsy one, is reported as inserted; only a
  truthy error prints the error diagnostic. When every insert of the run returns, the run
  prints two lines per chunk.
\<close>

theorem chunk_verdict:
  assumes "k < chunk_count rows"
    and "\<forall>j\<le>k. outcome_at c w rows j = Inr (res j)"
  shows "length (out w) + 2 * k + 1 < length (out (world_of (insert_icons_to_supabase c rows w)))
       \<and> out (world_of (insert_icons_to_supabase c rows w)) ! (length (out w) + 2 * k + 1)
           = (case error (res k) of
                None \<Rightarrow> Inserted
              | Some v \<Rightarrow> if truthy v then SupabaseError v else Inserted)
       \<and> ((\<forall>j<chunk_count rows. outcome_at c w rows j = Inr (res j))
            \<longrightarrow> length (out (world_of (insert_icons_to_supabase c rows w)))
                = length (out w) + 2 * chunk_count rows)"
proof -
  let ?n = "chunk_count rows"
  let ?W = "world_of (insert_icons_to_supabase c rows w)"
  let ?verdict = "case error (res k) of
                None \<Rightarrow> Inserted
              | Some v \<Rightarrow> if truthy v then SupabaseError v else Inserted"
  from assms(1) have ne: "rows \<noteq> []" by (auto simp: chunk_count_def chunk_size_def)
  define res' where "res' j = (case outcome_at c w rows j of Inr r \<Rightarrow> r | Inl e \<Rightarrow> res j)" for j
  have same: "res' k = res k" using assms(2) by (simp add: res'_def)
  have ret: "outcome_at c w rows j = Inr (res' j)" if "\<not> isl (outcome_at c w rows j)" for j
    using that by (cases "outcome_at c w rows j") (simp_all add: res'_def)
  have v: "(if truthy (getattr_error (res' k)) then SupabaseError (getattr_error (res' k))
            else Inserted) = ?verdict"
    by (simp add: same getattr_error_def split: option.split)
  have main: "length (out w) + 2 * k + 1 < length (out ?W)
       \<and> out ?W ! (length (out w) + 2 * k + 1) = ?verdict"
  proof (cases "\<exists>j. j < ?n \<and> isl (outcome_at c w rows j)")
    case False
    then have all: "\<forall>j<?n. outcome_at c w rows j = Inr (res' j)"
      using ret by blast
    have W: "?W = progress w res' rows ?n"
      by (simp add: publish_returns[OF ne all] world_of_def)
    have len: "length (out ?W) = length (out w) + 2 * ?n"
      by (simp add: W progress_def length_reports)
    from out_progress_nth[OF assms(1), of w res' rows "[]"]
    have "out ?W ! (length (out w) + 2 * k + 1) = ?verdict"
      by (simp add: W v)
    with len assms(1) show ?thesis by simp
  next
    case True
    then obtain m where m: "m < ?n" "isl (outcome_at c w rows m)"
      and least: "\<forall>j<m. \<not> (j < ?n \<and> isl (outcome_at c w rows j))"
      using exists_least_iff[of "\<lambda>j. j < ?n \<and> isl (outcome_at c w rows j)"] by blast
    from m(2) obtain e where e: "outcome_at c w rows m = Inl e"
      by (cases "outcome_at c w rows m") simp_all
    have km: "k < m"
    proof (rule ccontr)
      assume "\<not> k < m"
      then have "m \<le> k" by simp
      with assms(2) have "outcome_at c w rows m = Inr (res m)" by blast
      with e show False by simp
    qed
    have before: "\<forall>j<m. outcome_at c w rows j = Inr (res' j)"
      using least m(1) ret by (meson less_trans)
    let ?extra = "[Inserting (length (chunk_at rows m)) (m + 1)]"
    have W: "out ?W = out (progress w res' rows m) @ ?extra"
      by (simp add: publish_raises[OF m(1) before e] world_of_def)
    have len: "length (out ?W) = length (out w) + 2 * m + 1"
      by (simp add: W progress_def length_reports)
    from out_progress_nth[OF km, of w res' rows ?extra]
    have "out ?W ! (length (out w) + 2 * k + 1) = ?verdict"
      by (simp only: W v)
    with len km show ?thesis by simp
  qed
  have all: "(\<forall>j<?n. outcome_at c w rows j = Inr (res j))
            \<longrightarrow> length (out ?W) = length (out w) + 2 * ?n"
  proof
    assume a: "\<forall>j<?n. outcome_at c w rows j = Inr (res j)"
    show "length (out ?W) = length (out w) + 2 * ?n"
      by (simp add: publish_returns[OF ne a] world_of_def progress_def length_reports)
  qed
  from main all show ?thesis by blast
qed

theorem chunk_verdict_witness:
  "2 < chunk_count (sample_rows 250)
   \<and> outcome_at three_kinds empty_world (sample_rows 250) 2 = Inr (three_kinds_response 2)
   \<and> out (world_of (insert_icons_to_supabase three_kinds (sample_rows 250) empty_world)) ! 1
       = Inserted
   \<and> out (world_of (insert_icons_to_supabase three_kinds (sample_rows 250) empty_world)) ! 3
       = Inserted
   \<and> out (world_of (insert_icons_to_supabase three_kinds (sample_rows 250) empty_world)) ! 5
       = SupabaseError (PyObject ''APIError'')
   \<and> length (out (world_of (insert_icons_to_supabase three_kinds (sample_rows 250) empty_world)))
       = 6"
proof -
  let ?rows = "sample_rows 250"
  let ?W = "world_of (insert_icons_to_supabase three_kinds ?rows empty_world)"
  have n: "chunk_count ?rows = 3"
    by (simp add: chunk_count_def chunk_size_def sample_rows_def)
  have h: "outcome_at three_kinds empty_world ?rows j = Inr (three_kinds_response j)" for j
    by (simp add: outcome_at_def three_kinds_def empty_world_def)
  have r: "error (three_kinds_response 0) = None"
    "error (three_kinds_response (Suc 0)) = Some PyNone"
    "error (three_kinds_response 2) = Some (PyObject ''APIError'')"
    by (simp_all add: three_kinds_response_def)
  have o: "out empty_world = []" by (simp add: empty_world_def)
  have a0: "out ?W ! 1 = Inserted"
    using chunk_verdict[of 0 ?rows three_kinds empty_world three_kinds_response]
    by (simp add: n h r o)
  have a1: "out ?W ! 3 = Inserted"
    using chunk_verdict[of 1 ?rows three_kinds empty_world three_kinds_response]
    by (simp add: n h r o numeral_3_eq_3)
  have a2: "out ?W ! 5 = SupabaseError (PyObject ''APIError'') \<and> length (out ?W) = 6"
    using chunk_verdict[of 2 ?rows three_kinds empty_world three_kinds_response]
    by (simp add: n h r o)
  from a0 a1 a2 h[of 2] show ?thesis by (simp add: n)
qed

section \<open>Properties of identifiers\<close>

lemma length_hex32: "length (hex32 u) = 32"
  by (simp add: hex32_def)

lemma hex_groups:
  "take 8 h @ take 4 (drop 8 h) @ take 4 (drop 12 h) @ take 4 (drop 16 h) @ drop 20 h = h"
proof -
  have a: "take 4 (drop 16 h) @ drop 20 h = drop 16 h"
    using append_take_drop_id[of 4 "drop 16 h"] by simp
  have b: "take 4 (drop 12 h) @ drop 16 h = drop 12 h"
    using append_take_drop_id[of 4 "drop 12 h"] by simp
  have c: "take 4 (drop 8 h) @ drop 12 h = drop 8 h"
    using append_take_drop_id[of 4 "drop 8 h"] by simp
  show ?thesis by (simp only: a b c append_take_drop_id)
qed

lemma hex32_from_str_uuid:
  "take 8 (str_uuid u) @ take 4 (drop 9 (str_uuid u)) @ take 4 (drop 14 (str_uuid u))
     @ take 4 (drop 19 (str_uuid u)) @ drop 24 (str_uuid u) = hex32 u"
proof -
  define h where "h = hex32 u"
  have len: "length h = 32" by (simp add: h_def length_hex32)
  have s: "str_uuid u = take 8 h @ ''-'' @ take 4 (drop 8 h) @ ''-'' @ take 4 (drop 12 h) @ ''-'' @
         take 4 (drop 16 h) @ ''-'' @ drop 20 h"
    by (simp add: str_uuid_def h_def Let_def)
  have "take 8 (str_uuid u) @ take 4 (drop 9 (str_uuid u)) @ take 4 (drop 14 (str_uuid u))
     @ take 4 (drop 19 (str_uuid u)) @ drop 24 (str_uuid u) 
     = take 8 h @ take 4 (drop 8 h) @ take 4 (drop 12 h) @ take 4 (drop 16 h) @ drop 20 h"
    unfolding s using len by simp
  then show ?thesis by (simp only: hex_groups h_def)
qed

lemma str_uuid_hex32: "str_uuid u = str_uuid v \<Longrightarrow> hex32 u = hex32 v"
  using hex32_from_str_uuid[of u] hex32_from_str_uuid[of v] by simp

lemma nibble_less: "nibble u i < 16"
proof -
  have "and (drop_bit (4 * i) u) 15 \<le> (15 :: 128 word)"
    by (rule word_and_le1)
  then have "unat (and (drop_bit (4 * i) u) 15) \<le> unat (15 :: 128 word)"
    by (simp add: word_le_nat_alt)
  then show ?thesis by (simp add: nibble_def)
qed

lemma hex_digit_inj:
  assumes "a < 16" "b < 16" "hex_digit a = hex_digit b"
  shows "a = b"
proof -
  define hv :: "char \<Rightarrow> nat"
    where "hv c = (if of_char c < (58::nat) then of_char c - 48 else of_char c - 87)" for c
  have v: "n < 16 \<Longrightarrow> hv (hex_digit n) = n" for n
  proof -
    assume "n < 16"
    then have "n \<in> {0,1,2,3,4,5,6,7,8,9,10,11,12,13,14,15}"
      by simp arith
    then show ?thesis
      by (auto simp: hex_digit_def hv_def)
  qed
  from v[OF assms(1)] v[OF assms(2)] assms(3) show ?thesis by metis
qed

lemma hex32_nibbles:
  assumes "hex32 u = hex32 v" "i < 32"
  shows "nibble u i = nibble v i"
proof -
  from assms(1) have "\<forall>j \<in> set (rev [0..<32]). hex_digit (nibble u j) = hex_digit (nibble v j)"
    unfolding hex32_def by (simp only: map_eq_conv)
  with assms(2) have "hex_digit (nibble u i) = hex_digit (nibble v i)" by simp
  then show ?thesis by (rule hex_digit_inj[OF nibble_less nibble_less])
qed

lemma nibbles_eq:
  assumes "\<And>i. i < 32 \<Longrightarrow> nibble u i = nibble v i"
  shows "u = v"
proof (rule bit_eqI)
  fix n
  assume "possible_bit TYPE(128 word) n"
  then have n: "n < 128" by (simp add: possible_bit_def)
  define i where "i = n div 4"
  define m where "m = n mod 4"
  have i: "i < 32" using n by (simp add: i_def)
  have m: "m < 4" by (simp add: m_def)
  have nm: "4 * i + m = n" by (simp add: i_def m_def)
  have "and (drop_bit (4 * i) u) 15 = and (drop_bit (4 * i) v) (15 :: 128 word)"
    using assms[OF i] by (simp add: nibble_def word_unat_eq_iff)
  then have "bit (and (drop_bit (4 * i) u) 15) m = bit (and (drop_bit (4 * i) v) (15 :: 128 word)) m"
    by simp
  moreover have "bit (15 :: 128 word) m"
  proof -
    have "bit (mask 4 :: 128 word) m" using m by (simp add: bit_mask_iff)
    moreover have "(mask 4 :: 128 word) = 15" by (simp add: mask_eq_exp_minus_1)
    ultimately show ?thesis by (simp only:)
  qed
  ultimately show "bit u n = bit v n"
    by (simp add: bit_and_iff bit_drop_bit_eq nm)
qed

lemma str_uuid_inj: "str_uuid u = str_uuid v \<Longrightarrow> u = v"
  by (rule nibbles_eq) (rule hex32_nibbles[OF str_uuid_hex32])

lemma str_uuid_nonempty: "str_uuid u \<noteq> []"
  by (simp add: str_uuid_def Let_def)

lemma length_str_uuid: "length (str_uuid u) = 36"
  by (simp add: str_uuid_def Let_def length_hex32)


section \<open>Properties of the reconciliation loop\<close>

lemma main_loop_append:
  "main_loop ex u (xs @ ys) rows w =
     main_loop ex u ys (fst (main_loop ex u xs rows w)) (snd (main_loop ex u xs rows w))"
  by (induction xs arbitrary: rows w) (simp_all add: Let_def split: option.split)

text \<open>
  Claim C4, as amended. A catalog entry whose name is absent or empty is skipped without a
  diagnostic: wherever it stands in the catalog, the run is the run of the catalog without
  it, in the rows built, the lines printed and the identifiers drawn.
\<close>

theorem nameless_entry_skipped_silently:
  assumes "name e = None \<or> name e = Some ''''"
  shows "main_loop ex u (pre @ e # post) rows w = main_loop ex u (pre @ post) rows w"
proof -
  have "main_loop ex u (e # post) rows' w' = main_loop ex u post rows' w'" for rows' w'
    using assms by auto
  then show ?thesis by (simp add: main_loop_append)
qed

theorem nameless_entry_skipped_silently_witness:
  "(name \<lparr>name = Some '''', raw_tags = Some ''x'', category = None\<rparr> = None
      \<or> name \<lparr>name = Some '''', raw_tags = Some ''x'', category = None\<rparr> = Some '''')
   \<and> main_loop (\<lambda>p. True) word_of_nat
        ([\<lparr>name = Some ''a'', raw_tags = None, category = None\<rparr>]
           @ \<lparr>name = Some '''', raw_tags = Some ''x'', category = None\<rparr>
           # [\<lparr>name = Some ''b'', raw_tags = None, category = None\<rparr>])
        [] \<lparr>out = [], uuid_calls = 0, requests = []\<rparr>
     = main_loop (\<lambda>p. True) word_of_nat
        ([\<lparr>name = Some ''a'', raw_tags = None, category = None\<rparr>]
           @ [\<lparr>name = Some ''b'', raw_tags = None, category = None\<rparr>])
        [] \<lparr>out = [], uuid_calls = 0, requests = []\<rparr>"
  using nameless_entry_skipped_silently
          [of "\<lparr>name = Some '''', raw_tags = Some ''x'', category = None\<rparr>"
              "\<lambda>p. True" word_of_nat
              "[\<lparr>name = Some ''a'', raw_tags = None, category = None\<rparr>]"
              "[\<lparr>name = Some ''b'', raw_tags = None, category = None\<rparr>]"
              "[]" "\<lparr>out = [], uuid_calls = 0, requests = []\<rparr>"]
  by simp

text \<open>
  Claim C4, as stated, asks for a diagnostic. On a catalog of one entry without a name, and
  on one whose name is the empty string, the loop prints nothing, and the whole of \<open>main\<close>
  prints what it prints on the empty catalog.
\<close>

theorem nameless_entry_no_diagnostic:
  "out (snd (main_loop (\<lambda>p. True) word_of_nat
               [\<lparr>name = None, raw_tags = Some ''x'', category = None\<rparr>]
               [] empty_world)) = []
   \<and> out (snd (main_loop (\<lambda>p. True) word_of_nat
               [\<lparr>name = Some [], raw_tags = Some ''x'', category = None\<rparr>]
               [] empty_world)) = []
   \<and> main (\<lambda>p. True) word_of_nat fail_second
         [\<lparr>name = None, raw_tags = Some ''x'', category = None\<rparr>] empty_world
       = main (\<lambda>p. True) word_of_nat fail_second [] empty_world"
  by (simp add: empty_world_def main_def)

lemma main_loop_rows_shape:
  assumes "r \<in> set (fst (main_loop ex u icons rows w))"
  shows "r \<in> set rows \<or>
         (keyword r = [] \<and> embedding r = PyNone
          \<and> file' r = icon_name r @ ''-'' @ ICON_STYLE_SUFFIX @ ''.svg''
          \<and> (\<exists>e \<in> set icons. name e = Some (icon_name r)))"
  using assms
proof (induction icons arbitrary: rows w)
  case Nil
  then show ?case by simp
next
  case (Cons e icons)
  show ?case
  proof (cases "name e")
    case None
    with Cons.prems have "r \<in> set (fst (main_loop ex u icons rows w))" by simp
    from Cons.IH[OF this] show ?thesis by auto
  next
    case (Some nm)
    show ?thesis
    proof (cases "nm = [] \<or> \<not> ex (path_join OUTPUT_DIR (nm @ ''-'' @ ICON_STYLE_SUFFIX @ ''.svg''))")
      case True
      with Some Cons.prems obtain w' where "r \<in> set (fst (main_loop ex u icons rows w'))"
        by (auto simp: Let_def split: if_splits)
      from Cons.IH[OF this] show ?thesis by auto
    next
      case False
      with Some Cons.prems obtain w' where
        "r \<in> set (fst (main_loop ex u icons
           (rows @ [\<lparr>id' = str_uuid (u (uuid_calls w)), icon_name = nm,
                     tags = parse_tags (case raw_tags e of None \<Rightarrow> [] | Some t \<Rightarrow> t) (category e),
                     keyword = [], file' = nm @ ''-'' @ ICON_STYLE_SUFFIX @ ''.svg'',
                     embedding = PyNone\<rparr>]) w'))"
        by (auto simp: Let_def)
      from Cons.IH[OF this] Some show ?thesis by auto
    qed
  qed
qed

text \<open>
  Claim C5. Every record built by the loop has the empty string as keyword, \<^verbatim>\<open>None\<close> as
  embedding, and as file the name of a catalog entry followed by a dash, the style suffix
  and \<^verbatim>\<open>.svg\<close>; that name is the record's \<open>icon_name\<close>.
\<close>

theorem built_records_shape:
  "\<forall>r \<in> set (fst (main_loop ex u icons [] w)).
      keyword r = [] \<and> embedding r = PyNone
      \<and> file' r = icon_name r @ ''-'' @ ICON_STYLE_SUFFIX @ ''.svg''
      \<and> (\<exists>e \<in> set icons. name e = Some (icon_name r))"
  using main_loop_rows_shape[of _ ex u icons "[]" w] by auto

theorem built_records_shape_witness:
  "fst (main_loop files_example word_of_nat catalog_example [] empty_world) =
     [\<lparr>id' = str_uuid 0, icon_name = ''arrow-up'',
       tags = [''direction'', ''arrow'', ''navigation''], keyword = [],
       file' = ''arrow-up-stroke-rounded.svg'', embedding = PyNone\<rparr>]
   \<and> keyword (hd (fst (main_loop files_example word_of_nat catalog_example [] empty_world))) = []
   \<and> embedding (hd (fst (main_loop files_example word_of_nat catalog_example [] empty_world))) = PyNone
   \<and> file' (hd (fst (main_loop files_example word_of_nat catalog_example [] empty_world)))
       = ''arrow-up'' @ ''-'' @ ICON_STYLE_SUFFIX @ ''.svg''"
proof -
  have rows: "fst (main_loop files_example word_of_nat catalog_example [] empty_world) =
     [\<lparr>id' = str_uuid 0, icon_name = ''arrow-up'',
       tags = [''direction'', ''arrow'', ''navigation''], keyword = [],
       file' = ''arrow-up-stroke-rounded.svg'', embedding = PyNone\<rparr>]"
    by (simp add: catalog_example_def files_example_def empty_world_def path_join_def
          OUTPUT_DIR_def ICON_STYLE_SUFFIX_def parse_tags_def collect_tags_def strip_def
          isspace_def)
  then have "hd (fst (main_loop files_example word_of_nat catalog_example [] empty_world))
      \<in> set (fst (main_loop files_example word_of_nat catalog_example [] empty_world))"
    by simp
  with built_records_shape[of files_example word_of_nat catalog_example empty_world]
  have "keyword (hd (fst (main_loop files_example word_of_nat catalog_example [] empty_world))) = []
   \<and> embedding (hd (fst (main_loop files_example word_of_nat catalog_example [] empty_world))) = PyNone
   \<and> file' (hd (fst (main_loop files_example word_of_nat catalog_example [] empty_world)))
       = icon_name (hd (fst (main_loop files_example word_of_nat catalog_example [] empty_world)))
          @ ''-'' @ ICON_STYLE_SUFFIX @ ''.svg''"
    by blast
  with rows show ?thesis by simp
qed

lemma main_loop_ids:
  "uuid_calls w \<le> uuid_calls (snd (main_loop ex u icons rows w))
   \<and> uuid_calls (snd (main_loop ex u icons rows w)) \<le> uuid_calls w + length icons
   \<and> map id' (fst (main_loop ex u icons rows w)) =
       map id' rows @ map (\<lambda>k. str_uuid (u k))
                        [uuid_calls w ..< uuid_calls (snd (main_loop ex u icons rows w))]"
proof (induction icons arbitrary: rows w)
  case Nil
  then show ?case by simp
next
  case (Cons e icons)
  show ?case
  proof (cases "name e")
    case None
    with Cons.IH[where rows=rows and w=w] show ?thesis by simp
  next
    case (Some nm)
    show ?thesis
    proof (cases "nm = []")
      case True
      with Some Cons.IH[where rows=rows and w=w] show ?thesis by simp
    next
      case False
      note nonempty = this
      show ?thesis
      proof (cases "ex (path_join OUTPUT_DIR (nm @ ''-'' @ ICON_STYLE_SUFFIX @ ''.svg''))")
        case False
        with Some nonempty
          Cons.IH[where rows=rows and w="w\<lparr>out := out w @ [FileNotFound nm
                     (path_join OUTPUT_DIR (nm @ ''-'' @ ICON_STYLE_SUFFIX @ ''.svg''))]\<rparr>"]
        show ?thesis by (simp add: Let_def)
      next
        case True
        let ?r = "\<lparr>id' = str_uuid (u (uuid_calls w)), icon_name = nm,
                     tags = parse_tags (case raw_tags e of None \<Rightarrow> [] | Some t \<Rightarrow> t) (category e),
                     keyword = [], file' = nm @ ''-'' @ ICON_STYLE_SUFFIX @ ''.svg'',
                     embedding = PyNone\<rparr>"
        let ?w = "w\<lparr>uuid_calls := Suc (uuid_calls w)\<rparr>"
        have step: "main_loop ex u (e # icons) rows w = main_loop ex u icons (rows @ [?r]) ?w"
          using Some nonempty True by (simp add: Let_def)
        from Cons.IH[where rows="rows @ [?r]" and w="?w"]
        show ?thesis
          unfolding step by (auto simp: upt_conv_Cons)
      qed
    qed
  qed
qed

text \<open>
  Claim C6. For a named entry whose derived path does not exist, the loop prints the
  diagnostic naming the icon and the missing path, builds no record and goes on with the
  next entry. One entry with a present file and one with an absent file give exactly one
  record, in either order.
\<close>

theorem missing_file_skipped:
  assumes "name e = Some nm" and "nm \<noteq> []"
    and "\<not> ex (path_join OUTPUT_DIR (nm @ ''-'' @ ICON_STYLE_SUFFIX @ ''.svg''))"
  shows "main_loop ex u (e # rest) rows w =
           main_loop ex u rest rows
             (w\<lparr>out := out w @ [FileNotFound nm
                 (path_join OUTPUT_DIR (nm @ ''-'' @ ICON_STYLE_SUFFIX @ ''.svg''))]\<rparr>)
       \<and> (name a = Some na \<and> na \<noteq> []
            \<and> ex (path_join OUTPUT_DIR (na @ ''-'' @ ICON_STYLE_SUFFIX @ ''.svg''))
          \<longrightarrow> length (fst (main_loop ex u [a, e] [] w)) = 1
              \<and> length (fst (main_loop ex u [e, a] [] w)) = 1
              \<and> map icon_name (fst (main_loop ex u [a, e] [] w)) = [na])"
  using assms by (simp add: Let_def)

theorem missing_file_skipped_witness:
  "name (catalog_example ! 1) = Some ''missing-icon'' \<and> ''missing-icon'' \<noteq> []
   \<and> \<not> files_example (path_join OUTPUT_DIR (''missing-icon'' @ ''-'' @ ICON_STYLE_SUFFIX @ ''.svg''))
   \<and> name (catalog_example ! 0) = Some ''arrow-up'' \<and> ''arrow-up'' \<noteq> []
   \<and> files_example (path_join OUTPUT_DIR (''arrow-up'' @ ''-'' @ ICON_STYLE_SUFFIX @ ''.svg''))
   \<and> length (fst (main_loop files_example word_of_nat
                    [catalog_example ! 0, catalog_example ! 1] [] empty_world)) = 1
   \<and> main_loop files_example word_of_nat [catalog_example ! 1] [] empty_world =
       ([], empty_world\<lparr>out := out empty_world @
              [FileNotFound ''missing-icon'' ''icons/missing-icon-stroke-rounded.svg'']\<rparr>)"
proof -
  have h: "name (catalog_example ! 1) = Some ''missing-icon''" "''missing-icon'' \<noteq> []"
    "\<not> files_example (path_join OUTPUT_DIR (''missing-icon'' @ ''-'' @ ICON_STYLE_SUFFIX @ ''.svg''))"
    by (simp_all add: catalog_example_def files_example_def path_join_def OUTPUT_DIR_def
          ICON_STYLE_SUFFIX_def)
  have g: "name (catalog_example ! 0) = Some ''arrow-up''" "''arrow-up'' \<noteq> []"
    "files_example (path_join OUTPUT_DIR (''arrow-up'' @ ''-'' @ ICON_STYLE_SUFFIX @ ''.svg''))"
    by (simp_all add: catalog_example_def files_example_def path_join_def OUTPUT_DIR_def
          ICON_STYLE_SUFFIX_def)
  have p: "path_join OUTPUT_DIR (''missing-icon'' @ ''-'' @ ICON_STYLE_SUFFIX @ ''.svg'')
             = ''icons/missing-icon-stroke-rounded.svg''"
    by (simp add: path_join_def OUTPUT_DIR_def ICON_STYLE_SUFFIX_def)
  from missing_file_skipped[where e = "catalog_example ! 1" and nm = "''missing-icon''"
         and ex = files_example and u = word_of_nat and rest = "[]" and rows = "[]"
         and w = empty_world and a = "catalog_example ! 0" and na = "''arrow-up''"]
    g h p
  show ?thesis by simp
qed

lemma distinct_upt_prefix:
  assumes "distinct (map f [n..<n + m])" and "n' \<le> n + m"
  shows "distinct (map f [n..<n'])"
proof (cases "n \<le> n'")
  case True
  with assms(2) have "[n..<n + m] = [n..<n'] @ [n'..<n + m]"
    by (metis le_Suc_ex upt_add_eq_append)
  with assms(1) show ?thesis by simp
next
  case False
  then show ?thesis by simp
qed

text \<open>
  Claim C9. When the identifiers drawn during the run are distinct values (at most one is
  drawn per catalog entry), the records built have pairwise distinct ids, and every id is
  non-empty: it is the 36-character text of its identifier.
\<close>

theorem record_ids_fresh:
  assumes "distinct (map u [uuid_calls w..<uuid_calls w + length icons])"
  shows "distinct (map id' (fst (main_loop ex u icons [] w)))
       \<and> (\<forall>r \<in> set (fst (main_loop ex u icons [] w)). id' r \<noteq> [] \<and> length (id' r) = 36)"
proof -
  let ?rows = "fst (main_loop ex u icons [] w)"
  let ?n' = "uuid_calls (snd (main_loop ex u icons [] w))"
  from main_loop_ids[of w ex u icons "[]"]
  have le: "?n' \<le> uuid_calls w + length icons"
    and ids: "map id' ?rows = map (\<lambda>k. str_uuid (u k)) [uuid_calls w..<?n']"
    by simp_all
  from distinct_upt_prefix[OF assms le] have d: "distinct (map u [uuid_calls w..<?n'])" .
  have "inj_on str_uuid (set (map u [uuid_calls w..<?n']))"
    by (rule inj_onI) (rule str_uuid_inj)
  with d have "distinct (map str_uuid (map u [uuid_calls w..<?n']))"
    by (simp add: distinct_map comp_inj_on)
  then have 1: "distinct (map id' ?rows)" by (simp add: ids comp_def)
  have 2: "\<forall>r \<in> set ?rows. id' r \<noteq> [] \<and> length (id' r) = 36"
  proof
    fix r assume "r \<in> set ?rows"
    then have "id' r \<in> set (map id' ?rows)" by simp
    then obtain k where "id' r = str_uuid (u k)" unfolding ids by auto
    then show "id' r \<noteq> [] \<and> length (id' r) = 36"
      by (simp add: str_uuid_nonempty length_str_uuid)
  qed
  from 1 2 show ?thesis by simp
qed


theorem record_ids_fresh_witness:
  "distinct (map (word_of_nat :: nat \<Rightarrow> 128 word)
       [uuid_calls empty_world..<uuid_calls empty_world + length catalog_example])
   \<and> length (fst (main_loop (\<lambda>p. True) word_of_nat catalog_example [] empty_world)) = 2
   \<and> distinct (map id' (fst (main_loop (\<lambda>p. True) word_of_nat catalog_example [] empty_world)))
   \<and> id' (hd (fst (main_loop (\<lambda>p. True) word_of_nat catalog_example [] empty_world))) \<noteq> []"
proof -
  have h: "distinct (map (word_of_nat :: nat \<Rightarrow> 128 word)
       [uuid_calls empty_world..<uuid_calls empty_world + length catalog_example])"
    by (simp add: empty_world_def catalog_example_def upt_rec)
  have l: "length (fst (main_loop (\<lambda>p. True) word_of_nat catalog_example [] empty_world)) = 2"
    by (simp add: catalog_example_def Let_def)
  then have "hd (fst (main_loop (\<lambda>p. True) word_of_nat catalog_example [] empty_world))
      \<in> set (fst (main_loop (\<lambda>p. True) word_of_nat catalog_example [] empty_world))"
    by (intro hd_in_set) auto
  with record_ids_fresh[OF h, of "\<lambda>p. True"] h l show ?thesis by blast
qed

section \<open>The end-to-end scenario\<close>

text \<open>
  The specification's scenario through \<open>main\<close>: one record for \<^verbatim>\<open>arrow-up\<close>, the
  other entry skipped with its diagnostic, and exactly one insert request, whatever
  response the client returns.
\<close>

lemma main_example:
  assumes "supabase [] (''icon_vectors'',
                  [\<lparr>id' = str_uuid 0, icon_name = ''arrow-up'',
                    tags = [''direction'', ''arrow'', ''navigation''], keyword = [],
                    file' = ''arrow-up-stroke-rounded.svg'', embedding = PyNone\<rparr>]) = Inr res"
  shows "main files_example word_of_nat supabase catalog_example empty_world =
     Inr \<lparr>out = [FileNotFound ''missing-icon'' ''icons/missing-icon-stroke-rounded.svg'',
                 Prepared 1,
                 Inserting 1 1,
                 if truthy (getattr_error res) then SupabaseError (getattr_error res)
                 else Inserted,
                 Done],
          uuid_calls = 1,
          requests = [(''icon_vectors'',
                  [\<lparr>id' = str_uuid 0, icon_name = ''arrow-up'',
                    tags = [''direction'', ''arrow'', ''navigation''], keyword = [],
                    file' = ''arrow-up-stroke-rounded.svg'', embedding = PyNone\<rparr>])]\<rparr>"
proof -
  let ?r = "\<lparr>id' = str_uuid 0, icon_name = ''arrow-up'',
                    tags = [''direction'', ''arrow'', ''navigation''], keyword = [],
                    file' = ''arrow-up-stroke-rounded.svg'', embedding = PyNone\<rparr>"
  let ?w = "\<lparr>out = [FileNotFound ''missing-icon'' ''icons/missing-icon-stroke-rounded.svg'',
                    Prepared 1],
             uuid_calls = 1, requests = []\<rparr>"
  have loop: "main_loop files_example word_of_nat catalog_example [] empty_world =
     ([?r], \<lparr>out = [FileNotFound ''missing-icon'' ''icons/missing-icon-stroke-rounded.svg''],
             uuid_calls = 1, requests = []\<rparr>)"
    by (simp add: catalog_example_def files_example_def empty_world_def path_join_def
          OUTPUT_DIR_def ICON_STYLE_SUFFIX_def parse_tags_def collect_tags_def strip_def
          isspace_def)
  have n: "chunk_count [?r] = 1" by (simp add: chunk_count_def chunk_size_def)
  have c: "chunk_at [?r] 0 = [?r]" by (simp add: chunk_at_def chunk_size_def)
  have "\<forall>j<chunk_count [?r]. outcome_at supabase ?w [?r] j = Inr ((\<lambda>_. res) j)"
    using assms by (simp add: n outcome_at_def c SUPABASE_TABLE_def)
  from publish_returns[OF _ this]
  have "insert_icons_to_supabase supabase [?r] ?w = Inr (progress ?w (\<lambda>_. res) [?r] 1)"
    by (simp add: n)
  then show ?thesis
    by (simp add: main_def loop progress_def chunk_report_def c SUPABASE_TABLE_def)
qed

end
